theory Spec2Isabelle
  imports Main "HOL-Library.Word"
begin

section \<open>The Lamport clock (main.go, lines 13-53)\<close>

text \<open>
  Go's \<open>int64\<close> is a 64-bit two's complement integer: \<open>++\<close> wraps around and
  \<open>>\<close> compares the signed values. It is modelled as a 64-bit word whose
  signed reading is \<open>sint\<close>. The mutex of the clock serialises the calls; the model
  is the sequential behaviour of one call, with the clock passed in and returned.
\<close>

type_synonym int64 = "64 word"

record LamportClock =
  timestamp :: int64

definition NewLamportClock :: LamportClock where
  "NewLamportClock = \<lparr>timestamp = 0\<rparr>"

definition Tick :: "LamportClock \<Rightarrow> int64 \<times> LamportClock" where
  "Tick lc =
     (let lc1 = lc\<lparr>timestamp := timestamp lc + 1\<rparr>
      in (timestamp lc1, lc1))"

definition Update :: "int64 \<Rightarrow> LamportClock \<Rightarrow> int64 \<times> LamportClock" where
  "Update receivedTimestamp lc =
     (let lc1 = (if sint (timestamp lc) < sint receivedTimestamp
                 then lc\<lparr>timestamp := receivedTimestamp\<rparr> else lc);
          lc2 = lc1\<lparr>timestamp := timestamp lc1 + 1\<rparr>
      in (timestamp lc2, lc2))"

definition GetTime :: "LamportClock \<Rightarrow> int64" where
  "GetTime lc = timestamp lc"

section \<open>Events and the event log (main.go, lines 55-76)\<close>

text \<open>
  The wall-clock sample \<open>time.Now()\<close> is an input of each call: it is passed in
  as an argument. The output of \<open>log.Printf\<close> is not part of the state and is left
  out.
\<close>

type_synonym wall_time = nat

record Event =
  ID :: string
  Message :: string
  Timestamp :: int64
  WallTime :: wall_time

definition zero_Event :: Event where
  "zero_Event = \<lparr>ID = [], Message = [], Timestamp = 0, WallTime = 0\<rparr>"

text \<open>
  A Go slice is a view (array, len, cap) of a backing array that lives on the heap; two
  slices may share one array. The heap is the list of the backing arrays allocated so
  far, an address is an index into it, and allocation adds an array at the end.
\<close>

record slice =
  array :: nat
  len :: nat
  cap :: nat

type_synonym heap = "Event list list"

definition elems :: "heap \<Rightarrow> slice \<Rightarrow> Event list" where
  "elems h sl = take (len sl) (h ! array sl)"

text \<open>\<open>make([]Event, n)\<close>: a fresh array of \<open>n\<close> zero values.\<close>

definition make_slice :: "nat \<Rightarrow> heap \<Rightarrow> slice \<times> heap" where
  "make_slice n h = (\<lparr>array = length h, len = n, cap = n\<rparr>, h @ [replicate n zero_Event])"

text \<open>
  \<open>append(sl, e)\<close>: when the capacity allows, the element is written into the shared
  backing array; otherwise a new, sufficiently large array is allocated and the elements
  are moved there. How much larger the new array is belongs to the Go runtime: it is the
  parameter \<open>grow\<close>, from the old capacity to the proposed new one.
\<close>

definition append_slice :: "(nat \<Rightarrow> nat) \<Rightarrow> slice \<Rightarrow> Event \<Rightarrow> heap \<Rightarrow> slice \<times> heap" where
  "append_slice grow sl e h =
     (if len sl < cap sl
      then (sl\<lparr>len := len sl + 1\<rparr>, h[array sl := (h ! array sl)[len sl := e]])
      else
        (let newcap = max (len sl + 1) (grow (cap sl));
             arr = take (len sl) (h ! array sl) @ [e] @ replicate (newcap - (len sl + 1)) zero_Event
         in (\<lparr>array = length h, len = len sl + 1, cap = newcap\<rparr>, h @ [arr])))"

text \<open>\<open>copy(dst, src)\<close>: overwrites the first min(len dst, len src) elements of dst.\<close>

definition copy_slice :: "slice \<Rightarrow> slice \<Rightarrow> heap \<Rightarrow> heap" where
  "copy_slice dst src h =
     (let n = min (len dst) (len src)
      in h[array dst := take n (h ! array src) @ drop n (h ! array dst)])"

text \<open>
  A server owns its clock: \<open>NewServer\<close> creates it and nothing else holds the
  pointer, so the clock is a field of the record.
\<close>

record Server =
  clock :: LamportClock
  events :: slice

type_synonym state = "Server \<times> heap"

definition NewServer :: "heap \<Rightarrow> state" where
  "NewServer h =
     (let (sl, h1) = make_slice 0 h
      in (\<lparr>clock = NewLamportClock, events = sl\<rparr>, h1))"

section \<open>Recording events (main.go, lines 78-116)\<close>

definition logEvent ::
  "(nat \<Rightarrow> nat) \<Rightarrow> string \<Rightarrow> string \<Rightarrow> wall_time \<Rightarrow> state \<Rightarrow> Event \<times> state" where
  "logEvent grow eid message now st =
     (let (s, h) = st;
          (ts, c1) = Tick (clock s);
          event = \<lparr>ID = eid, Message = message, Timestamp = ts, WallTime = now\<rparr>;
          (sl, h1) = append_slice grow (events s) event h
      in (event, (s\<lparr>clock := c1, events := sl\<rparr>, h1)))"

text \<open>
  \<open>fmt.Sprintf("msg-%d", n)\<close> prints the signed decimal numeral of \<open>n\<close>:
  \<open>dec\<close> prints a natural number, \<open>Sprintf_d\<close> puts the sign in front.
\<close>

definition digit_char :: "nat \<Rightarrow> char" where
  "digit_char d = ''0123456789'' ! d"

function dec :: "nat \<Rightarrow> string" where
  "dec n = (if n < 10 then [digit_char n] else dec (n div 10) @ [digit_char (n mod 10)])"
  by pat_completeness auto
termination
  by (relation "measure (\<lambda>n. n)") auto

declare dec.simps [simp del]

definition Sprintf_d :: "int \<Rightarrow> string" where
  "Sprintf_d i = (if i < 0 then CHR ''-'' # dec (nat (- i)) else dec (nat i))"

definition processMessage ::
  "(nat \<Rightarrow> nat) \<Rightarrow> int64 \<Rightarrow> string \<Rightarrow> wall_time \<Rightarrow> state \<Rightarrow> Event \<times> state" where
  "processMessage grow receivedTimestamp message now st =
     (let (s, h) = st;
          (newTimestamp, c1) = Update receivedTimestamp (clock s);
          event = \<lparr>ID = ''msg-'' @ Sprintf_d (sint newTimestamp),
                   Message = ''Processed: '' @ message,
                   Timestamp = newTimestamp, WallTime = now\<rparr>;
          (sl, h1) = append_slice grow (events s) event h
      in (event, (s\<lparr>clock := c1, events := sl\<rparr>, h1)))"

section \<open>The HTTP handlers (main.go, lines 138-181)\<close>

text \<open>
  A request is its method and its parsed query (\<open>url.Values\<close>, a map from a key to
  the list of its values). A response is the status code and the body; a JSON body is
  kept as the value that is encoded.
\<close>

record Request =
  Method :: string
  Query :: "string \<rightharpoonup> string list"

datatype Body =
    Text string
  | EventJSON Event
  | EventsJSON int64 "Event list" nat

record Response =
  StatusCode :: nat
  body :: Body

definition Get :: "(string \<rightharpoonup> string list) \<Rightarrow> string \<Rightarrow> string" where
  "Get vs key = (case vs key of None \<Rightarrow> [] | Some [] \<Rightarrow> [] | Some (v # _) \<Rightarrow> v)"

definition http_Error :: "string \<Rightarrow> nat \<Rightarrow> Response" where
  "http_Error msg code = \<lparr>StatusCode = code, body = Text (msg @ [CHR 0x0A])\<rparr>"

definition StatusOK :: nat where "StatusOK = 200"
definition StatusBadRequest :: nat where "StatusBadRequest = 400"
definition StatusMethodNotAllowed :: nat where "StatusMethodNotAllowed = 405"

text \<open>
  \<open>strconv.ParseInt(s, 10, 64)\<close> of the Go library: an optional sign, then one or
  more decimal digits, and the value must fit 64 signed bits. \<open>ParseUint_loop\<close> is
  the digit loop of \<open>ParseUint\<close> with its accumulator.
\<close>

datatype NumError = ErrSyntax | ErrRange

fun ParseUint_loop :: "nat \<Rightarrow> string \<Rightarrow> NumError + nat" where
  "ParseUint_loop n [] = Inr n"
| "ParseUint_loop n (c # cs) =
     (let k = (of_char c :: nat)
      in if 48 \<le> k \<and> k \<le> 57
         then (let n1 = n * 10 + (k - 48)
               in if 2 ^ 64 \<le> n1 then Inl ErrRange else ParseUint_loop n1 cs)
         else Inl ErrSyntax)"

definition ParseUint :: "string \<Rightarrow> NumError + nat" where
  "ParseUint s = (if s = [] then Inl ErrSyntax else ParseUint_loop 0 s)"

definition ParseInt :: "string \<Rightarrow> NumError + int64" where
  "ParseInt s =
     (case s of
        [] \<Rightarrow> Inl ErrSyntax
      | c # cs \<Rightarrow>
          (let neg = (c = CHR ''-'');
               s1 = (if c = CHR ''+'' \<or> c = CHR ''-'' then cs else s)
           in case ParseUint s1 of
                Inl e \<Rightarrow> Inl e
              | Inr un \<Rightarrow>
                  if \<not> neg \<and> 2 ^ 63 \<le> un then Inl ErrRange
                  else if neg \<and> 2 ^ 63 < un then Inl ErrRange
                  else Inr (if neg then - word_of_nat un else word_of_nat un)))"

definition handleReceiveMessage ::
  "(nat \<Rightarrow> nat) \<Rightarrow> Request \<Rightarrow> wall_time \<Rightarrow> state \<Rightarrow> Response \<times> state" where
  "handleReceiveMessage grow r now st =
     (if Method r \<noteq> ''POST''
      then (http_Error ''Method not allowed'' StatusMethodNotAllowed, st)
      else
        (let timestampStr = Get (Query r) ''timestamp'';
             message = Get (Query r) ''message''
         in if timestampStr = [] \<or> message = []
            then (http_Error ''Missing timestamp or message parameter'' StatusBadRequest, st)
            else
              (case ParseInt timestampStr of
                 Inl err \<Rightarrow> (http_Error ''Invalid timestamp'' StatusBadRequest, st)
               | Inr ts \<Rightarrow>
                   (let (event, st1) = processMessage grow ts message now st
                    in (\<lparr>StatusCode = StatusOK, body = EventJSON event\<rparr>, st1)))))"

text \<open>
  \<open>handleGetEvents\<close> copies the log into a slice of its own before it encodes it;
  \<open>copy_events\<close> is that part of the handler (lines 170-173), returning the local
  slice \<open>events\<close>.
\<close>

definition copy_events :: "state \<Rightarrow> slice \<times> state" where
  "copy_events st =
     (let (s, h) = st;
          (evs, h1) = make_slice (len (events s)) h;
          h2 = copy_slice evs (events s) h1
      in (evs, (s, h2)))"

definition handleGetEvents :: "Request \<Rightarrow> state \<Rightarrow> Response \<times> state" where
  "handleGetEvents r st =
     (if Method r \<noteq> ''GET''
      then (http_Error ''Method not allowed'' StatusMethodNotAllowed, st)
      else
        (let (evs, st1) = copy_events st;
             (s, h) = st1
         in (\<lparr>StatusCode = StatusOK,
              body = EventsJSON (GetTime (clock s)) (elems h evs) (len evs)\<rparr>, st1)))"

section \<open>Sequences of calls\<close>

text \<open>
  A run of the clock is a list of calls, executed one after the other. Its trace pairs
  the value each call returned with the value stored in the clock right after it.
\<close>

datatype clock_call = CallTick | CallUpdate int64

fun clock_step :: "clock_call \<Rightarrow> LamportClock \<Rightarrow> int64 \<times> LamportClock" where
  "clock_step CallTick lc = Tick lc"
| "clock_step (CallUpdate r) lc = Update r lc"

fun clock_run :: "clock_call list \<Rightarrow> LamportClock \<Rightarrow> (int64 \<times> int64) list \<times> LamportClock" where
  "clock_run [] lc = ([], lc)"
| "clock_run (c # cs) lc =
     (let (r, lc1) = clock_step c lc;
          (tr, lc2) = clock_run cs lc1
      in ((r, GetTime lc1) # tr, lc2))"

text \<open>
  A call fits when its increment does not leave the range of \<open>int64\<close>: the value that
  is incremented, the larger of the counter and the received value, is below
  \<open>2^63 - 1\<close>. A run stays in range when every call of it fits.
\<close>

fun fits :: "clock_call \<Rightarrow> LamportClock \<Rightarrow> bool" where
  "fits CallTick lc = (sint (timestamp lc) < 2 ^ 63 - 1)"
| "fits (CallUpdate r) lc = (max (sint (timestamp lc)) (sint r) < 2 ^ 63 - 1)"

fun in_range :: "clock_call list \<Rightarrow> LamportClock \<Rightarrow> bool" where
  "in_range [] lc = True"
| "in_range (c # cs) lc = (fits c lc \<and> in_range cs (snd (clock_step c lc)))"

text \<open>The calls on a server, each with the wall-clock time it samples.\<close>

datatype server_call =
    CallLogEvent string string wall_time
  | CallProcessMessage int64 string wall_time

fun server_step :: "(nat \<Rightarrow> nat) \<Rightarrow> server_call \<Rightarrow> state \<Rightarrow> Event \<times> state" where
  "server_step grow (CallLogEvent eid message now) st = logEvent grow eid message now st"
| "server_step grow (CallProcessMessage r message now) st = processMessage grow r message now st"

fun server_run :: "(nat \<Rightarrow> nat) \<Rightarrow> server_call list \<Rightarrow> state \<Rightarrow> Event list \<times> state" where
  "server_run grow [] st = ([], st)"
| "server_run grow (c # cs) st =
     (let (e, st1) = server_step grow c st;
          (es, st2) = server_run grow cs st1
      in (e # es, st2))"

fun clock_call_of :: "server_call \<Rightarrow> clock_call" where
  "clock_call_of (CallLogEvent eid message now) = CallTick"
| "clock_call_of (CallProcessMessage r message now) = CallUpdate r"

fun is_message :: "server_call \<Rightarrow> bool" where
  "is_message (CallLogEvent eid message now) = False"
| "is_message (CallProcessMessage r message now) = True"

text \<open>
  The IDs of the events that the \<open>processMessage\<close> calls of a run returned; \<open>es\<close>
  are the events the calls \<open>cs\<close> returned, in call order.
\<close>

definition message_ids :: "server_call list \<Rightarrow> Event list \<Rightarrow> string list" where
  "message_ids cs es = map (\<lambda>p. ID (snd p)) (filter (\<lambda>p. is_message (fst p)) (zip cs es))"

text \<open>The event log of a state, read in append order through the server's slice.\<close>

definition event_log :: "state \<Rightarrow> Event list" where
  "event_log st = elems (snd st) (events (fst st))"

text \<open>
  Go keeps every slice inside its backing array. \<open>wf\<close> says so for the server's
  log, and \<open>apart\<close> says that a slice lives in an allocated array other than the
  array of the log.
\<close>

definition wf :: "state \<Rightarrow> bool" where
  "wf st =
     (array (events (fst st)) < length (snd st) \<and>
      cap (events (fst st)) = length (snd st ! array (events (fst st))) \<and>
      len (events (fst st)) \<le> cap (events (fst st)))"

definition apart :: "slice \<Rightarrow> state \<Rightarrow> bool" where
  "apart sl st = (array sl < length (snd st) \<and> array sl \<noteq> array (events (fst st)))"

section \<open>Arithmetic of the clock\<close>

lemma sint_succ: 
  fixes w :: int64
  assumes "sint w < 2 ^ 63 - 1"
  shows "sint (w + 1) = sint w + 1"
proof -
  have lo: "- (2 ^ 63) \<le> sint w" using sint_ge [of w] by simp
  have "sint (w + 1) = signed_take_bit 63 (sint w + 1)"
    by (simp add: sint_word_add)
  also have "\<dots> = sint w + 1"
    using lo assms by (intro signed_take_bit_int_eq_self) simp_all
  finally show ?thesis .
qed

lemma Tick_fst: "fst (Tick lc) = timestamp lc + 1"
  by (simp add: Tick_def)

lemma Tick_snd: "snd (Tick lc) = lc\<lparr>timestamp := timestamp lc + 1\<rparr>"
  by (simp add: Tick_def)

lemma Update_fst:
  "fst (Update r lc) = (if sint (timestamp lc) < sint r then r else timestamp lc) + 1"
  by (simp add: Update_def Let_def)

lemma Update_snd:
  "snd (Update r lc) = lc\<lparr>timestamp := (if sint (timestamp lc) < sint r then r else timestamp lc) + 1\<rparr>"
  by (simp add: Update_def Let_def)

lemma Update_sint:
  assumes "max (sint (timestamp lc)) (sint r) < 2 ^ 63 - 1"
  shows "sint (fst (Update r lc)) = max (sint (timestamp lc)) (sint r) + 1"
  using assms by (auto simp: Update_fst sint_succ max_def)

lemma clock_step_stored: "timestamp (snd (clock_step c lc)) = fst (clock_step c lc)"
  by (cases c) (simp_all add: Tick_def Update_def Let_def)

lemma clock_step_grows:
  assumes "fits c lc"
  shows "sint (timestamp lc) < sint (fst (clock_step c lc))"
proof (cases c)
  case CallTick
  with assms show ?thesis by (simp add: Tick_fst sint_succ)
next
  case (CallUpdate r)
  with assms have "sint (fst (Update r lc)) = max (sint (timestamp lc)) (sint r) + 1"
    by (simp add: Update_sint)
  with CallUpdate show ?thesis by simp
qed


section \<open>The clock: claims\<close>

text \<open>
  Claim C7 (amended). \<open>Tick\<close> is a total function with no error result. For every
  clock state it adds 1 to the counter with the addition of \<open>int64\<close> and returns the
  new value, which is the value a following \<open>GetTime\<close> reads. For every clock state
  whose counter is below \<open>2^63 - 1\<close> the new value is, as an integer, the old one plus
  exactly 1.
\<close>
theorem Tick_increments:
  "Tick lc = (timestamp lc + 1, lc\<lparr>timestamp := timestamp lc + 1\<rparr>) \<and>
   GetTime (snd (Tick lc)) = fst (Tick lc) \<and>
   (sint (timestamp lc) < 2 ^ 63 - 1 \<longrightarrow>
      sint (fst (Tick lc)) = sint (timestamp lc) + 1 \<and>
      sint (GetTime (snd (Tick lc))) = sint (timestamp lc) + 1)"
proof -
  have word: "Tick lc = (timestamp lc + 1, lc\<lparr>timestamp := timestamp lc + 1\<rparr>)"
    by (simp add: Tick_def)
  have ret: "GetTime (snd (Tick lc)) = fst (Tick lc)"
    by (simp add: Tick_def GetTime_def)
  have val: "sint (fst (Tick lc)) = sint (timestamp lc) + 1"
    if "sint (timestamp lc) < 2 ^ 63 - 1"
    using that by (simp add: Tick_fst sint_succ)
  from word ret val show ?thesis
    by simp
qed

text \<open>The theorem at the counter 41.\<close>
theorem Tick_increments_witness:
  "sint (timestamp \<lparr>timestamp = 41\<rparr>) < 2 ^ 63 - 1 \<and>
   sint (fst (Tick \<lparr>timestamp = 41\<rparr>)) = 42 \<and>
   sint (GetTime (snd (Tick \<lparr>timestamp = 41\<rparr>))) = 42"
proof -
  have h: "sint (timestamp \<lparr>timestamp = 41\<rparr>) < 2 ^ 63 - 1"
    by simp
  show ?thesis
    using h Tick_increments [of "\<lparr>timestamp = 41\<rparr>"] by (simp add: GetTime_def)
qed

text \<open>
  Claim C7 as stated fails: a fresh clock that receives \<open>2^63 - 2\<close> stands at
  \<open>2^63 - 1\<close>, and the tick that follows returns and stores \<open>-2^63\<close>.
\<close>
theorem Tick_increments_counterexample:
  "sint (GetTime (snd (Update 9223372036854775806 NewLamportClock))) = 9223372036854775807 \<and>
   sint (fst (Tick (snd (Update 9223372036854775806 NewLamportClock))))
     = - 9223372036854775808 \<and>
   sint (GetTime (snd (Tick (snd (Update 9223372036854775806 NewLamportClock)))))
     = - 9223372036854775808"
  by (simp add: Tick_def Update_def NewLamportClock_def GetTime_def Let_def)

text \<open>
  Claim C1 (amended). For every counter value \<open>v\<close> and received value \<open>r\<close>, negative
  ones included, \<open>Update\<close> sets the counter to the larger of the two under the signed
  order, plus 1 with the addition of \<open>int64\<close>, and returns that value. When
  \<open>max v r < 2^63 - 1\<close> this is the integer \<open>max v r + 1\<close> and the counter does not
  decrease, whatever the sign of \<open>r\<close>. The three concrete cases of the claim hold.
\<close>
theorem Update_max_plus_one:
  "fst (Update r lc) = (if sint (timestamp lc) < sint r then r else timestamp lc) + 1 \<and>
   GetTime (snd (Update r lc)) = fst (Update r lc) \<and>
   (max (sint (timestamp lc)) (sint r) < 2 ^ 63 - 1 \<longrightarrow>
      sint (fst (Update r lc)) = max (sint (timestamp lc)) (sint r) + 1 \<and>
      sint (timestamp lc) < sint (GetTime (snd (Update r lc)))) \<and>
   fst (Update 5 \<lparr>timestamp = 0\<rparr>) = 6 \<and>
   fst (Update 3 \<lparr>timestamp = 6\<rparr>) = 7 \<and>
   fst (Update 7 \<lparr>timestamp = 7\<rparr>) = 8"
proof -
  have ret: "GetTime (snd (Update r lc)) = fst (Update r lc)"
    by (simp add: GetTime_def Update_fst Update_snd)
  have val: "sint (fst (Update r lc)) = max (sint (timestamp lc)) (sint r) + 1"
    if "max (sint (timestamp lc)) (sint r) < 2 ^ 63 - 1"
    using that by (rule Update_sint)
  have up: "sint (timestamp lc) < sint (GetTime (snd (Update r lc)))"
    if "max (sint (timestamp lc)) (sint r) < 2 ^ 63 - 1"
    using val [OF that] by (simp add: ret)
  have cases: "fst (Update 5 \<lparr>timestamp = 0\<rparr>) = 6 \<and>
      fst (Update 3 \<lparr>timestamp = 6\<rparr>) = 7 \<and> fst (Update 7 \<lparr>timestamp = 7\<rparr>) = 8"
    by (simp add: Update_fst)
  have new: "fst (Update r lc) = (if sint (timestamp lc) < sint r then r else timestamp lc) + 1"
    by (rule Update_fst)
  from new ret val up cases show ?thesis
    by blast
qed

text \<open>The theorem at the counter 6 and the negative received value -3.\<close>
theorem Update_max_plus_one_witness:
  "max (sint (timestamp \<lparr>timestamp = 6\<rparr>)) (sint (- 3 :: int64)) < 2 ^ 63 - 1 \<and>
   sint (fst (Update (- 3) \<lparr>timestamp = 6\<rparr>)) = 7 \<and>
   GetTime (snd (Update (- 3) \<lparr>timestamp = 6\<rparr>)) = 7"
proof -
  have h: "max (sint (timestamp \<lparr>timestamp = 6\<rparr>)) (sint (- 3 :: int64)) < 2 ^ 63 - 1"
    by simp
  show ?thesis
    using h Update_max_plus_one [of "- 3" "\<lparr>timestamp = 6\<rparr>"] by simp
qed

text \<open>
  Claim C1 as stated fails: a fresh clock that receives \<open>2^63 - 2\<close> stands at
  \<open>2^63 - 1\<close>, and the negative value -1 then takes it down to \<open>-2^63\<close>.
\<close>
theorem Update_negative_counterexample:
  "sint (GetTime (snd (Update 9223372036854775806 NewLamportClock))) = 9223372036854775807 \<and>
   sint (- 1 :: int64) < 0 \<and>
   sint (fst (Update (- 1) (snd (Update 9223372036854775806 NewLamportClock))))
     = - 9223372036854775808 \<and>
   sint (GetTime (snd (Update (- 1) (snd (Update 9223372036854775806 NewLamportClock)))))
     < sint (GetTime (snd (Update 9223372036854775806 NewLamportClock)))"
  by (simp add: Update_def NewLamportClock_def GetTime_def Let_def)

text \<open>
  Claim C4 (amended). For every received value \<open>r\<close> with \<open>0 \<le> r < 2^63 - 1\<close> and
  every prior counter value below \<open>2^63 - 1\<close>, \<open>Update r\<close> returns the integer
  \<open>max v r + 1\<close>, with no wrap-around, and this is strictly greater than both the prior
  value and \<open>r\<close>.
\<close>
theorem Update_after_send:
  assumes "0 \<le> sint r" and "sint r < 2 ^ 63 - 1" and "sint (timestamp lc) < 2 ^ 63 - 1"
  shows "sint (fst (Update r lc)) = max (sint (timestamp lc)) (sint r) + 1 \<and>
         sint (timestamp lc) < sint (fst (Update r lc)) \<and>
         sint r < sint (fst (Update r lc))"
proof -
  from assms have "max (sint (timestamp lc)) (sint r) < 2 ^ 63 - 1" by simp
  then have "sint (fst (Update r lc)) = max (sint (timestamp lc)) (sint r) + 1"
    by (rule Update_sint)
  then show ?thesis by simp
qed

text \<open>The theorem at the counter 2 and the received value 10.\<close>
theorem Update_after_send_witness:
  "0 \<le> sint (10 :: int64) \<and> sint (10 :: int64) < 2 ^ 63 - 1 \<and>
   sint (timestamp \<lparr>timestamp = 2\<rparr>) < 2 ^ 63 - 1 \<and>
   sint (fst (Update 10 \<lparr>timestamp = 2\<rparr>)) = 11"
proof -
  have h1: "0 \<le> sint (10 :: int64)" by simp
  have h2: "sint (10 :: int64) < 2 ^ 63 - 1" by simp
  have h3: "sint (timestamp \<lparr>timestamp = 2\<rparr>) < 2 ^ 63 - 1" by simp
  show ?thesis
    using h1 h2 h3 Update_after_send [OF h1 h2 h3] by simp
qed

text \<open>
  Claim C4 as stated fails at the non-negative received value \<open>2^63 - 1\<close>: a fresh
  clock returns \<open>-2^63\<close>, below both the received value and its own prior value 0.
\<close>
theorem Update_after_send_counterexample:
  "0 \<le> sint (9223372036854775807 :: int64) \<and>
   sint (fst (Update 9223372036854775807 NewLamportClock)) = - 9223372036854775808 \<and>
   sint (fst (Update 9223372036854775807 NewLamportClock)) < sint (9223372036854775807 :: int64) \<and>
   sint (fst (Update 9223372036854775807 NewLamportClock)) < sint (timestamp NewLamportClock)"
  by (simp add: Update_def NewLamportClock_def Let_def)

lemma sorted_wrt_less_Cons2:
  "(a :: int) < b \<Longrightarrow> sorted_wrt (<) (b # xs) \<Longrightarrow> sorted_wrt (<) (a # b # xs)"
  by auto

lemma clock_run_stored:
  "map snd (fst (clock_run cs lc)) = map fst (fst (clock_run cs lc))"
  by (induction cs arbitrary: lc)
     (simp_all add: split_beta Let_def GetTime_def clock_step_stored)

lemma clock_run_increasing:
  "in_range cs lc \<Longrightarrow>
   sorted_wrt (<) (sint (timestamp lc) # map (\<lambda>p. sint (snd p)) (fst (clock_run cs lc)))"
proof (induction cs arbitrary: lc)
  case Nil
  then show ?case by simp
next
  case (Cons c cs)
  let ?lc1 = "snd (clock_step c lc)"
  from Cons.prems have f: "fits c lc" and r: "in_range cs ?lc1" by simp_all
  have step: "sint (timestamp lc) < sint (timestamp ?lc1)"
    using clock_step_grows [OF f] by (simp add: clock_step_stored)
  have rest: "sorted_wrt (<) (sint (timestamp ?lc1) # map (\<lambda>p. sint (snd p)) (fst (clock_run cs ?lc1)))"
    using Cons.IH [OF r] .
  have "fst (clock_run (c # cs) lc) =
        (fst (clock_step c lc), timestamp ?lc1) # fst (clock_run cs ?lc1)"
    by (simp add: split_beta Let_def GetTime_def)
  then show ?case
    using sorted_wrt_less_Cons2 [OF step rest] by simp
qed

lemma clock_run_final:
  "GetTime (snd (clock_run cs lc)) = last (timestamp lc # map fst (fst (clock_run cs lc)))"
proof (induction cs arbitrary: lc)
  case Nil
  then show ?case by (simp add: GetTime_def)
next
  case (Cons c cs)
  then show ?case
    by (simp add: split_beta Let_def clock_step_stored)
qed

text \<open>
  Claim C2 (amended). A new clock holds 0. After a non-empty run, \<open>GetTime\<close> is the
  value the last call returned. For a run that stays in range, the stored value goes up
  strictly at every call, and every returned value is strictly greater than every value
  returned before it.
\<close>
theorem clock_monotone:
  "timestamp NewLamportClock = 0 \<and>
   (cs \<noteq> [] \<longrightarrow> GetTime (snd (clock_run cs lc)) = fst (last (fst (clock_run cs lc)))) \<and>
   (in_range cs lc \<longrightarrow>
      sorted_wrt (<) (sint (timestamp lc) # map (\<lambda>p. sint (snd p)) (fst (clock_run cs lc))) \<and>
      sorted_wrt (<) (map (\<lambda>p. sint (fst p)) (fst (clock_run cs lc))))"
proof -
  have init: "timestamp NewLamportClock = 0"
    by (simp add: NewLamportClock_def)
  have ne: "fst (clock_run cs lc) \<noteq> []" if "cs \<noteq> []"
    using that by (cases cs) (simp_all add: split_beta Let_def)
  have final: "GetTime (snd (clock_run cs lc)) = fst (last (fst (clock_run cs lc)))" if "cs \<noteq> []"
    using ne [OF that] by (simp add: clock_run_final last_map)
  have incr: "sorted_wrt (<) (map (\<lambda>p. sint (fst p)) (fst (clock_run cs lc)))" if "in_range cs lc"
  proof -
    have "sorted_wrt (<) (sint (timestamp lc) # map (\<lambda>p. sint (snd p)) (fst (clock_run cs lc)))"
      using that by (rule clock_run_increasing)
    then have "sorted_wrt (<) (map sint (map snd (fst (clock_run cs lc))))"
      by (simp add: comp_def)
    then have "sorted_wrt (<) (map sint (map fst (fst (clock_run cs lc))))"
      by (simp only: clock_run_stored)
    then show ?thesis by (simp add: comp_def)
  qed
  show ?thesis
    using init final incr clock_run_increasing by blast
qed

text \<open>The theorem on a fresh clock for a tick, a receipt of 5 and a receipt of -4.\<close>
theorem clock_monotone_witness:
  "[CallTick, CallUpdate 5, CallUpdate (- 4)] \<noteq> [] \<and>
   in_range [CallTick, CallUpdate 5, CallUpdate (- 4)] NewLamportClock \<and>
   fst (clock_run [CallTick, CallUpdate 5, CallUpdate (- 4)] NewLamportClock)
     = [(1, 1), (6, 6), (7, 7)] \<and>
   GetTime (snd (clock_run [CallTick, CallUpdate 5, CallUpdate (- 4)] NewLamportClock)) = 7"
proof -
  have h1: "[CallTick, CallUpdate 5, CallUpdate (- 4)] \<noteq> []" by simp
  have h2: "in_range [CallTick, CallUpdate 5, CallUpdate (- 4)] NewLamportClock"
    by (simp add: NewLamportClock_def Tick_def Update_def Let_def)
  have tr: "fst (clock_run [CallTick, CallUpdate 5, CallUpdate (- 4)] NewLamportClock)
     = [(1, 1), (6, 6), (7, 7)]"
    by (simp add: NewLamportClock_def Tick_def Update_def GetTime_def Let_def)
  show ?thesis
    using h1 h2 tr clock_monotone [of "[CallTick, CallUpdate 5, CallUpdate (- 4)]" NewLamportClock]
    by simp
qed

text \<open>
  Claim C2 as stated fails: on a fresh clock a tick returns 1, and the receipt of
  \<open>2^63 - 1\<close> that follows returns \<open>-2^63\<close> and stores it.
\<close>
theorem clock_monotone_counterexample:
  "fst (clock_run [CallTick, CallUpdate 9223372036854775807] NewLamportClock)
     = [(1, 1), (- 9223372036854775808, - 9223372036854775808)] \<and>
   sint (- 9223372036854775808 :: int64) < sint (1 :: int64)"
  by (simp add: NewLamportClock_def Tick_def Update_def GetTime_def Let_def)

section \<open>Slices, the heap and runs of the server\<close>

lemma append_slice_elems:
  assumes "array sl < length h" and "cap sl = length (h ! array sl)" and "len sl \<le> cap sl"
  shows "elems (snd (append_slice grow sl e h)) (fst (append_slice grow sl e h)) = elems h sl @ [e]"
proof (cases "len sl < cap sl")
  case True
  with assms show ?thesis
    by (simp add: append_slice_def elems_def take_Suc_conv_app_nth)
next
  case False
  with assms show ?thesis
    by (simp add: append_slice_def elems_def Let_def nth_append)
qed

lemma append_slice_wf:
  assumes "array sl < length h" and "cap sl = length (h ! array sl)" and "len sl \<le> cap sl"
  shows "array (fst (append_slice grow sl e h)) < length (snd (append_slice grow sl e h)) \<and>
         cap (fst (append_slice grow sl e h)) =
           length (snd (append_slice grow sl e h) ! array (fst (append_slice grow sl e h))) \<and>
         len (fst (append_slice grow sl e h)) \<le> cap (fst (append_slice grow sl e h))"
proof (cases "len sl < cap sl")
  case True
  with assms show ?thesis
    by (simp add: append_slice_def)
next
  case False
  with assms show ?thesis
    by (simp add: append_slice_def Let_def nth_append)
qed

lemma append_slice_frame:
  assumes "array sl < length h" and "array other < length h" and "array other \<noteq> array sl"
  shows "elems (snd (append_slice grow sl e h)) other = elems h other \<and>
         array other < length (snd (append_slice grow sl e h)) \<and>
         array other \<noteq> array (fst (append_slice grow sl e h))"
  using assms by (simp add: append_slice_def elems_def Let_def nth_append)

lemma server_step_state:
  "snd (server_step grow c (s, h)) =
     (s\<lparr>clock := snd (clock_step (clock_call_of c) (clock s)),
        events := fst (append_slice grow (events s) (fst (server_step grow c (s, h))) h)\<rparr>,
      snd (append_slice grow (events s) (fst (server_step grow c (s, h))) h))"
  by (cases c) (simp_all add: logEvent_def processMessage_def split_beta Let_def)

lemma server_step_Timestamp:
  "Timestamp (fst (server_step grow c st)) = fst (clock_step (clock_call_of c) (clock (fst st)))"
  by (cases c) (simp_all add: logEvent_def processMessage_def split_beta Let_def)

lemma server_step_clock:
  "clock (fst (snd (server_step grow c st))) = snd (clock_step (clock_call_of c) (clock (fst st)))"
  by (cases st) (simp add: server_step_state)

lemma server_step_log:
  assumes "wf st"
  shows "event_log (snd (server_step grow c st)) = event_log st @ [fst (server_step grow c st)] \<and>
         wf (snd (server_step grow c st))"
proof (cases st)
  case (Pair s h)
  with assms have a: "array (events s) < length h" "cap (events s) = length (h ! array (events s))"
    "len (events s) \<le> cap (events s)"
    by (simp_all add: wf_def)
  show ?thesis
    using append_slice_elems [OF a, of grow "fst (server_step grow c (s, h))"]
      append_slice_wf [OF a, of grow "fst (server_step grow c (s, h))"]
    by (simp add: Pair server_step_state event_log_def wf_def)
qed

lemma server_step_frame:
  assumes "wf st" and "apart sl st"
  shows "elems (snd (snd (server_step grow c st))) sl = elems (snd st) sl \<and>
         apart sl (snd (server_step grow c st))"
proof (cases st)
  case (Pair s h)
  with assms have a: "array (events s) < length h" "array sl < length h"
    "array sl \<noteq> array (events s)"
    by (simp_all add: wf_def apart_def)
  show ?thesis
    using append_slice_frame [OF a, of grow "fst (server_step grow c (s, h))"]
    by (simp add: Pair server_step_state apart_def)
qed

lemma server_run_log:
  "wf st \<Longrightarrow>
   event_log (snd (server_run grow cs st)) = event_log st @ fst (server_run grow cs st) \<and>
   wf (snd (server_run grow cs st))"
proof (induction cs arbitrary: st)
  case Nil
  then show ?case by simp
next
  case (Cons c cs)
  from server_step_log [OF Cons.prems]
  have l: "event_log (snd (server_step grow c st)) = event_log st @ [fst (server_step grow c st)]"
    and w: "wf (snd (server_step grow c st))" by simp_all
  from Cons.IH [OF w] l show ?case
    by (simp add: split_beta Let_def)
qed

lemma server_run_frame:
  "wf st \<Longrightarrow> apart sl st \<Longrightarrow>
   elems (snd (snd (server_run grow cs st))) sl = elems (snd st) sl \<and>
   apart sl (snd (server_run grow cs st))"
proof (induction cs arbitrary: st)
  case Nil
  then show ?case by simp
next
  case (Cons c cs)
  from server_step_log [OF Cons.prems(1)] have w: "wf (snd (server_step grow c st))" by simp
  from server_step_frame [OF Cons.prems]
  have e: "elems (snd (snd (server_step grow c st))) sl = elems (snd st) sl"
    and a: "apart sl (snd (server_step grow c st))" by simp_all
  from Cons.IH [OF w a] e show ?case
    by (simp add: split_beta Let_def)
qed

lemma server_run_clock:
  "map Timestamp (fst (server_run grow cs st)) =
     map fst (fst (clock_run (map clock_call_of cs) (clock (fst st)))) \<and>
   clock (fst (snd (server_run grow cs st))) =
     snd (clock_run (map clock_call_of cs) (clock (fst st)))"
  by (induction cs arbitrary: st)
     (simp_all add: split_beta Let_def server_step_Timestamp server_step_clock)

lemma length_server_run: "length (fst (server_run grow cs st)) = length cs"
  by (induction cs arbitrary: st) (simp_all add: split_beta Let_def)

lemma NewServer_fresh:
  "wf (NewServer h) \<and> event_log (NewServer h) = [] \<and> clock (fst (NewServer h)) = NewLamportClock"
  by (simp add: NewServer_def make_slice_def wf_def event_log_def elems_def)

lemma copy_events_frozen:
  assumes "wf st"
  shows "elems (snd (snd (copy_events st))) (fst (copy_events st)) = event_log st \<and>
         len (fst (copy_events st)) = length (event_log st) \<and>
         fst (snd (copy_events st)) = fst st \<and>
         event_log (snd (copy_events st)) = event_log st \<and>
         wf (snd (copy_events st)) \<and>
         apart (fst (copy_events st)) (snd (copy_events st)) \<and>
         array (fst (copy_events st)) = length (snd st)"
proof (cases st)
  case (Pair s h)
  with assms have a: "array (events s) < length h" "cap (events s) = length (h ! array (events s))"
    "len (events s) \<le> cap (events s)"
    by (simp_all add: wf_def)
  then show ?thesis
    by (simp add: Pair copy_events_def make_slice_def copy_slice_def Let_def
        event_log_def elems_def wf_def apart_def nth_append)
qed

section \<open>Decimal numerals\<close>

lemma of_char_digit_char:
  assumes "d < 10"
  shows "(of_char (digit_char d) :: nat) = 48 + d"
proof -
  from assms have "d = 0 \<or> d = 1 \<or> d = 2 \<or> d = 3 \<or> d = 4 \<or>
    d = 5 \<or> d = 6 \<or> d = 7 \<or> d = 8 \<or> d = 9"
    by arith
  then show ?thesis
    by (elim disjE) (simp_all add: digit_char_def)
qed

lemma digit_char_not_sign:
  assumes "d < 10"
  shows "digit_char d \<noteq> CHR ''-'' \<and> digit_char d \<noteq> CHR ''+''"
proof -
  have "(of_char (digit_char d) :: nat) \<noteq> of_char CHR ''-''"
    and "(of_char (digit_char d) :: nat) \<noteq> of_char CHR ''+''"
    using assms by (simp_all add: of_char_digit_char)
  then show ?thesis by auto
qed

lemma ParseUint_loop_snoc:
  "ParseUint_loop a (xs @ [c]) =
     (case ParseUint_loop a xs of Inl e \<Rightarrow> Inl e | Inr m \<Rightarrow> ParseUint_loop m [c])"
  by (induction xs arbitrary: a) (simp_all add: Let_def)

lemma ParseUint_loop_digit:
  "d < 10 \<Longrightarrow> m * 10 + d < 2 ^ 64 \<Longrightarrow> ParseUint_loop m [digit_char d] = Inr (m * 10 + d)"
  by (simp add: of_char_digit_char Let_def)

lemma ParseUint_loop_dec: "n < 2 ^ 64 \<Longrightarrow> ParseUint_loop 0 (dec n) = Inr n"
proof (induction n rule: dec.induct)
  case (1 n)
  show ?case
  proof (cases "n < 10")
    case True
    then have "dec n = [digit_char n]" by (subst dec.simps) simp
    with True "1.prems" show ?thesis
      using ParseUint_loop_digit [of n 0] by simp
  next
    case False
    then have d: "dec n = dec (n div 10) @ [digit_char (n mod 10)]"
      by (subst dec.simps) simp
    from "1.prems" have "n div 10 < 2 ^ 64" by simp
    with False have ih: "ParseUint_loop 0 (dec (n div 10)) = Inr (n div 10)"
      by (rule "1.IH")
    have "ParseUint_loop (n div 10) [digit_char (n mod 10)] = Inr (n div 10 * 10 + n mod 10)"
      using "1.prems" by (intro ParseUint_loop_digit) simp_all
    with ih d show ?thesis
      by (simp add: ParseUint_loop_snoc)
  qed
qed

lemma dec_first: "\<exists>d cs. d < 10 \<and> dec n = digit_char d # cs"
proof (induction n rule: dec.induct)
  case (1 n)
  show ?case
  proof (cases "n < 10")
    case True
    then have "dec n = [digit_char n]" by (subst dec.simps) simp
    with True show ?thesis by blast
  next
    case False
    then have d: "dec n = dec (n div 10) @ [digit_char (n mod 10)]"
      by (subst dec.simps) simp
    from False "1.IH" obtain k cs where "k < 10" "dec (n div 10) = digit_char k # cs"
      by blast
    with d have "k < 10 \<and> dec n = digit_char k # (cs @ [digit_char (n mod 10)])" by simp
    then show ?thesis by blast
  qed
qed

lemma ParseInt_Sprintf_d: "ParseInt (Sprintf_d (sint (t :: int64))) = Inr t"
proof (cases "sint t < 0")
  case True
  let ?n = "nat (- sint t)"
  have "- (2 ^ 63) \<le> sint t" using sint_ge [of t] by simp
  then have b: "?n \<le> 2 ^ 63" by simp
  then have "?n < 2 ^ 64" by simp
  then have "ParseUint_loop 0 (dec ?n) = Inr ?n" by (rule ParseUint_loop_dec)
  moreover have "dec ?n \<noteq> []" using dec_first [of ?n] by auto
  ultimately have u: "ParseUint (dec ?n) = Inr ?n" by (simp add: ParseUint_def)
  have "- (word_of_nat ?n :: int64) = word_of_int (sint t)"
    using True by simp
  then have w: "- (word_of_nat ?n :: int64) = t" by simp
  from True have "Sprintf_d (sint t) = CHR ''-'' # dec ?n" by (simp add: Sprintf_d_def)
  then show ?thesis
    using u b w by (simp add: ParseInt_def)
next
  case False
  let ?n = "nat (sint t)"
  have "sint t < 2 ^ 63" using sint_lt [of t] by simp
  then have b: "?n < 2 ^ 63" using False by simp
  then have "?n < 2 ^ 64" by simp
  then have l: "ParseUint_loop 0 (dec ?n) = Inr ?n" by (rule ParseUint_loop_dec)
  obtain d cs where d: "d < 10" "dec ?n = digit_char d # cs"
    using dec_first [of ?n] by blast
  from l d have u: "ParseUint (digit_char d # cs) = Inr ?n" by (simp add: ParseUint_def)
  have "(word_of_nat ?n :: int64) = word_of_int (sint t)"
    using False by simp
  then have w: "(word_of_nat ?n :: int64) = t" by simp
  from False d have "Sprintf_d (sint t) = digit_char d # cs" by (simp add: Sprintf_d_def)
  then show ?thesis
    using u b w digit_char_not_sign [OF d(1)] by (simp add: ParseInt_def)
qed

lemma Sprintf_d_sint_inj: "Sprintf_d (sint (a :: int64)) = Sprintf_d (sint b) \<Longrightarrow> a = b"
proof -
  assume "Sprintf_d (sint a) = Sprintf_d (sint b)"
  then have "ParseInt (Sprintf_d (sint a)) = ParseInt (Sprintf_d (sint b))" by simp
  then show "a = b" by (simp add: ParseInt_Sprintf_d)
qed

lemma server_run_returned:
  "(c, e) \<in> set (zip cs (fst (server_run grow cs st))) \<Longrightarrow> \<exists>st1. e = fst (server_step grow c st1)"
proof (induction cs arbitrary: st)
  case Nil
  then show ?case by simp
next
  case (Cons a cs)
  from Cons.prems
  have "(c, e) = (a, fst (server_step grow a st)) \<or>
        (c, e) \<in> set (zip cs (fst (server_run grow cs (snd (server_step grow a st)))))"
    by (simp add: split_beta Let_def)
  then show ?case
  proof
    assume "(c, e) = (a, fst (server_step grow a st))"
    then show ?thesis by blast
  next
    assume "(c, e) \<in> set (zip cs (fst (server_run grow cs (snd (server_step grow a st)))))"
    then show ?thesis by (rule Cons.IH)
  qed
qed

lemma message_ID:
  "is_message c \<Longrightarrow>
   ID (fst (server_step grow c st)) = ''msg-'' @ Sprintf_d (sint (Timestamp (fst (server_step grow c st))))"
  by (cases c) (simp_all add: processMessage_def split_beta Let_def)

lemma server_run_timestamps_distinct:
  assumes "in_range (map clock_call_of cs) (clock (fst st))"
  shows "distinct (map Timestamp (fst (server_run grow cs st)))"
proof -
  let ?tr = "fst (clock_run (map clock_call_of cs) (clock (fst st)))"
  have "sorted_wrt (<) (sint (timestamp (clock (fst st))) # map (\<lambda>p. sint (snd p)) ?tr)"
    using assms by (rule clock_run_increasing)
  then have "sorted_wrt (<) (map sint (map snd ?tr))"
    by (simp add: comp_def)
  then have "distinct (map sint (map snd ?tr))"
    by (simp only: strict_sorted_iff)
  then have "distinct (map snd ?tr)"
    by (simp only: distinct_map)
  then have "distinct (map fst ?tr)"
    by (simp only: clock_run_stored)
  then show ?thesis
    using server_run_clock [of grow cs st] by simp
qed

section \<open>The server: claims\<close>

text \<open>
  Claim C5. On a fresh server the calls \<open>logEvent\<close>, \<open>logEvent\<close>,
  \<open>processMessage 5\<close>, \<open>logEvent\<close>, \<open>processMessage 4\<close> return events with the
  logical times 1, 2, 6, 7, 8, the log holds these times in this order, and
  \<open>GetTime\<close> then reads 8, whatever the IDs, the messages, the wall-clock samples, the
  heap the server was created in and the growth of the log's capacity.
\<close>
theorem distributed_scenario:
  "map Timestamp (fst (server_run grow
      [CallLogEvent i1 m1 t1, CallLogEvent i2 m2 t2, CallProcessMessage 5 m3 t3,
       CallLogEvent i4 m4 t4, CallProcessMessage 4 m5 t5] (NewServer h))) = [1, 2, 6, 7, 8] \<and>
   map Timestamp (event_log (snd (server_run grow
      [CallLogEvent i1 m1 t1, CallLogEvent i2 m2 t2, CallProcessMessage 5 m3 t3,
       CallLogEvent i4 m4 t4, CallProcessMessage 4 m5 t5] (NewServer h)))) = [1, 2, 6, 7, 8] \<and>
   GetTime (clock (fst (snd (server_run grow
      [CallLogEvent i1 m1 t1, CallLogEvent i2 m2 t2, CallProcessMessage 5 m3 t3,
       CallLogEvent i4 m4 t4, CallProcessMessage 4 m5 t5] (NewServer h))))) = 8"
proof -
  let ?cs = "[CallLogEvent i1 m1 t1, CallLogEvent i2 m2 t2, CallProcessMessage 5 m3 t3,
       CallLogEvent i4 m4 t4, CallProcessMessage 4 m5 t5]"
  have run: "clock_run (map clock_call_of ?cs) NewLamportClock =
       ([(1, 1), (2, 2), (6, 6), (7, 7), (8, 8)], \<lparr>timestamp = 8\<rparr>)"
    by (simp add: NewLamportClock_def Tick_def Update_def GetTime_def Let_def)
  have ret: "map Timestamp (fst (server_run grow ?cs (NewServer h))) = [1, 2, 6, 7, 8]"
    using server_run_clock [of grow ?cs "NewServer h"] by (simp only: NewServer_fresh run) simp
  have log: "event_log (snd (server_run grow ?cs (NewServer h))) = fst (server_run grow ?cs (NewServer h))"
    using server_run_log [of "NewServer h" grow ?cs] by (simp add: NewServer_fresh)
  have fin: "clock (fst (snd (server_run grow ?cs (NewServer h)))) = \<lparr>timestamp = 8\<rparr>"
    using server_run_clock [of grow ?cs "NewServer h"] by (simp only: NewServer_fresh run) simp
  show ?thesis
    by (simp only: ret log fin GetTime_def) simp
qed

text \<open>
  Claim C3 (amended). For every sequence of \<open>logEvent\<close> and \<open>processMessage\<close> calls
  on a fresh server whose clock calls stay in range, the timestamps of the event log,
  read in append order, are strictly increasing.
\<close>
theorem log_strictly_increasing:
  assumes "in_range (map clock_call_of cs) NewLamportClock"
  shows "sorted_wrt (<)
           (map (\<lambda>e. sint (Timestamp e)) (event_log (snd (server_run grow cs (NewServer h)))))"
proof -
  let ?tr = "fst (clock_run (map clock_call_of cs) NewLamportClock)"
  have log: "event_log (snd (server_run grow cs (NewServer h))) = fst (server_run grow cs (NewServer h))"
    using server_run_log [of "NewServer h" grow cs] by (simp add: NewServer_fresh)
  have ts: "map Timestamp (fst (server_run grow cs (NewServer h))) = map fst ?tr"
    using server_run_clock [of grow cs "NewServer h"] by (simp add: NewServer_fresh)
  have "sorted_wrt (<) (sint (timestamp NewLamportClock) # map (\<lambda>p. sint (snd p)) ?tr)"
    using assms by (rule clock_run_increasing)
  then have "sorted_wrt (<) (map sint (map snd ?tr))"
    by (simp add: comp_def)
  then have "sorted_wrt (<) (map sint (map fst ?tr))"
    by (simp only: clock_run_stored)
  then have "sorted_wrt (<) (map sint (map Timestamp (fst (server_run grow cs (NewServer h)))))"
    by (simp only: ts)
  then show ?thesis
    by (simp add: log comp_def)
qed

text \<open>
The theorem for a local event, a receipt of 5 and a receipt of -2.
\<close>
theorem log_strictly_increasing_witness:
  "in_range (map clock_call_of
      [CallLogEvent ''a'' ''start'' 10, CallProcessMessage 5 ''ping'' 11, CallProcessMessage (- 2) ''pong'' 12])
      NewLamportClock \<and>
   map Timestamp (event_log (snd (server_run (\<lambda>c. 2 * c)
      [CallLogEvent ''a'' ''start'' 10, CallProcessMessage 5 ''ping'' 11, CallProcessMessage (- 2) ''pong'' 12]
      (NewServer [])))) = [1, 6, 7] \<and>
   sorted_wrt (<) (map (\<lambda>e. sint (Timestamp e)) (event_log (snd (server_run (\<lambda>c. 2 * c)
      [CallLogEvent ''a'' ''start'' 10, CallProcessMessage 5 ''ping'' 11, CallProcessMessage (- 2) ''pong'' 12]
      (NewServer []))))) "
proof -
  have h: "in_range (map clock_call_of
      [CallLogEvent ''a'' ''start'' 10, CallProcessMessage 5 ''ping'' 11, CallProcessMessage (- 2) ''pong'' 12])
      NewLamportClock"
    by (simp add: NewLamportClock_def Tick_def Update_def Let_def)
  have v: "map Timestamp (event_log (snd (server_run (\<lambda>c. 2 * c)
      [CallLogEvent ''a'' ''start'' 10, CallProcessMessage 5 ''ping'' 11, CallProcessMessage (- 2) ''pong'' 12]
      (NewServer [])))) = [1, 6, 7]"
    by (simp add: NewServer_def make_slice_def logEvent_def processMessage_def append_slice_def
        NewLamportClock_def Tick_def Update_def event_log_def elems_def Let_def)
  show ?thesis
    using h v log_strictly_increasing [OF h, of "\<lambda>c. 2 * c" "[]"] by simp
qed

text \<open>
  Claim C3 as stated fails: after a local event, the receipt of \<open>2^63 - 1\<close> appends an
  event with the timestamp \<open>-2^63\<close> behind the event with the timestamp 1.
\<close>
theorem log_strictly_increasing_counterexample:
  "map (\<lambda>e. sint (Timestamp e)) (event_log (snd (server_run (\<lambda>c. 2 * c)
      [CallLogEvent ''a'' ''start'' 10, CallProcessMessage 9223372036854775807 ''ping'' 11]
      (NewServer [])))) = [1, - 9223372036854775808]"
  by (simp add: NewServer_def make_slice_def logEvent_def processMessage_def append_slice_def
        NewLamportClock_def Tick_def Update_def event_log_def elems_def Let_def)

text \<open>
  Claim C6. In a well-formed state (\<open>NewServer_fresh\<close>, \<open>server_run_log\<close> and
  \<open>copy_events_frozen\<close>: a fresh server is well formed and every operation keeps it
  so), a GET request to \<open>handleGetEvents\<close> answers with the current clock value, the
  event log in append order and its length. The events are read through a slice of the
  handler's own: its backing array is allocated by the handler, so no slice of the state
  before the request points to it, and it is not the array of the server's log, neither
  right after the snapshot nor after any later sequence of \<open>logEvent\<close> and
  \<open>processMessage\<close> calls. Those calls do extend the log, and the slice still reads the
  events of the log as it was when the snapshot was taken.
\<close>
theorem snapshot_frozen:
  assumes "Method r = ''GET''"
    and "wf st"
    and "copy_events st = (evs, st1)"
    and "st2 = snd (server_run grow cs st1)"
  shows "handleGetEvents r st =
           (\<lparr>StatusCode = StatusOK,
             body = EventsJSON (GetTime (clock (fst st))) (event_log st) (length (event_log st))\<rparr>,
            st1) \<and>
         elems (snd st1) evs = event_log st \<and>
         array evs = length (snd st) \<and>
         array (events (fst st)) < array evs \<and>
         array evs < length (snd st1) \<and>
         array evs \<noteq> array (events (fst st1)) \<and>
         array evs < length (snd st2) \<and>
         array evs \<noteq> array (events (fst st2)) \<and>
         event_log st2 = event_log st @ fst (server_run grow cs st1) \<and>
         elems (snd st2) evs = event_log st"
proof -
  from copy_events_frozen [OF assms(2)] assms(3)
  have c: "elems (snd st1) evs = event_log st" "len evs = length (event_log st)"
    "fst st1 = fst st" "event_log st1 = event_log st" "wf st1" "apart evs st1"
    "array evs = length (snd st)"
    by simp_all
  have resp: "handleGetEvents r st =
           (\<lparr>StatusCode = StatusOK,
             body = EventsJSON (GetTime (clock (fst st))) (event_log st) (length (event_log st))\<rparr>,
            st1)"
    using assms(1,3) c(1,2,3) by (simp add: handleGetEvents_def split_beta)
  have own: "array (events (fst st)) < array evs"
    using assms(2) c(7) by (simp add: wf_def)
  have sep1: "array evs < length (snd st1) \<and> array evs \<noteq> array (events (fst st1))"
    using c(6) by (simp add: apart_def)
  have later: "event_log st2 = event_log st @ fst (server_run grow cs st1)"
    using server_run_log [OF c(5), of grow cs] assms(4) c(4) by simp
  have frozen: "elems (snd st2) evs = event_log st \<and> apart evs st2"
    using server_run_frame [OF c(5,6), of grow cs] assms(4) c(1) by simp
  then have sep2: "array evs < length (snd st2) \<and> array evs \<noteq> array (events (fst st2))"
    by (simp add: apart_def)
  from resp c(1) c(7) own sep1 sep2 later frozen show ?thesis by simp
qed

text \<open>
  The theorem for a snapshot taken after one local event and followed by the receipt of
  a message.
\<close>
theorem snapshot_frozen_witness:
  "Method \<lparr>Method = ''GET'', Query = Map.empty\<rparr> = ''GET'' \<and>
   wf (snd (server_run (\<lambda>c. 2 * c) [CallLogEvent ''e1'' ''first'' 1] (NewServer []))) \<and>
   fst (handleGetEvents \<lparr>Method = ''GET'', Query = Map.empty\<rparr>
     (snd (server_run (\<lambda>c. 2 * c) [CallLogEvent ''e1'' ''first'' 1] (NewServer [])))) =
     \<lparr>StatusCode = 200,
      body = EventsJSON 1 [\<lparr>ID = ''e1'', Message = ''first'', Timestamp = 1, WallTime = 1\<rparr>] 1\<rparr> \<and>
   event_log (snd (server_run (\<lambda>c. 2 * c) [CallProcessMessage 5 ''m'' 2]
       (snd (copy_events (snd (server_run (\<lambda>c. 2 * c) [CallLogEvent ''e1'' ''first'' 1] (NewServer []))))))) =
     [\<lparr>ID = ''e1'', Message = ''first'', Timestamp = 1, WallTime = 1\<rparr>,
      \<lparr>ID = ''msg-6'', Message = ''Processed: m'', Timestamp = 6, WallTime = 2\<rparr>] \<and>
   elems (snd (snd (server_run (\<lambda>c. 2 * c) [CallProcessMessage 5 ''m'' 2]
       (snd (copy_events (snd (server_run (\<lambda>c. 2 * c) [CallLogEvent ''e1'' ''first'' 1] (NewServer []))))))))
     (fst (copy_events (snd (server_run (\<lambda>c. 2 * c) [CallLogEvent ''e1'' ''first'' 1] (NewServer []))))) =
     [\<lparr>ID = ''e1'', Message = ''first'', Timestamp = 1, WallTime = 1\<rparr>] \<and>
   array (events (fst (snd (server_run (\<lambda>c. 2 * c) [CallLogEvent ''e1'' ''first'' 1] (NewServer []))))) = 1 \<and>
   array (fst (copy_events (snd (server_run (\<lambda>c. 2 * c) [CallLogEvent ''e1'' ''first'' 1] (NewServer []))))) = 2"
proof -
  let ?g = "\<lambda>c :: nat. 2 * c"
  let ?r = "\<lparr>Method = ''GET'', Query = Map.empty\<rparr>"
  let ?st = "snd (server_run ?g [CallLogEvent ''e1'' ''first'' 1] (NewServer []))"
  have h: "Method ?r = ''GET''" by simp
  have st: "?st = (\<lparr>clock = \<lparr>timestamp = 1\<rparr>, events = \<lparr>array = 1, len = 1, cap = 1\<rparr>\<rparr>,
      [[], [\<lparr>ID = ''e1'', Message = ''first'', Timestamp = 1, WallTime = 1\<rparr>]])"
    by (simp add: NewServer_def make_slice_def logEvent_def append_slice_def
        NewLamportClock_def Tick_def Let_def)
  have log: "event_log ?st = [\<lparr>ID = ''e1'', Message = ''first'', Timestamp = 1, WallTime = 1\<rparr>]"
    unfolding st by (simp add: event_log_def elems_def)
  have later: "fst (server_run ?g [CallProcessMessage 5 ''m'' 2] (snd (copy_events ?st))) =
      [\<lparr>ID = ''msg-6'', Message = ''Processed: m'', Timestamp = 6, WallTime = 2\<rparr>]"
    unfolding st
    by (simp add: copy_events_def make_slice_def copy_slice_def processMessage_def
        append_slice_def Update_def Sprintf_d_def dec.simps digit_char_def Let_def)
  have now: "GetTime (clock (fst ?st)) = 1"
    unfolding st by (simp add: GetTime_def)
  have w: "wf ?st"
    unfolding st by (simp add: wf_def)
  have own: "array (events (fst ?st)) = 1 \<and> array (fst (copy_events ?st)) = 2"
    unfolding st by (simp add: copy_events_def make_slice_def)
  show ?thesis
    using h w own snapshot_frozen [where grow = ?g and cs = "[CallProcessMessage 5 ''m'' 2]",
        OF h w surjective_pairing refl]
    unfolding log later now
    by (simp add: StatusOK_def)
qed

text \<open>
  Claim C9 (amended). For every sequence of operations on a server whose clock calls stay
  in range, no two \<open>processMessage\<close> calls return events with the same ID.
\<close>
theorem message_ids_distinct:
  assumes "in_range (map clock_call_of cs) (clock (fst st))"
  shows "distinct (message_ids cs (fst (server_run grow cs st)))"
proof -
  let ?es = "fst (server_run grow cs st)"
  let ?ms = "filter (\<lambda>p. is_message (fst p)) (zip cs ?es)"
  let ?name = "\<lambda>t :: int64. ''msg-'' @ Sprintf_d (sint t)"
  have "map snd (zip cs ?es) = ?es"
    by (simp add: length_server_run)
  then have "map (\<lambda>p. Timestamp (snd p)) (zip cs ?es) = map Timestamp ?es"
    by (metis (no_types, lifting) map_map comp_def map_eq_conv)
  then have "distinct (map (\<lambda>p. Timestamp (snd p)) (zip cs ?es))"
    using server_run_timestamps_distinct [OF assms, of grow] by simp
  then have d: "distinct (map (\<lambda>p. Timestamp (snd p)) ?ms)"
    by (rule distinct_map_filter)
  have "inj ?name"
    by (rule injI) (simp add: Sprintf_d_sint_inj)
  then have "inj_on ?name (set (map (\<lambda>p. Timestamp (snd p)) ?ms))"
    by (rule inj_on_subset) simp
  with d have "distinct (map ?name (map (\<lambda>p. Timestamp (snd p)) ?ms))"
    by (simp only: distinct_map)
  moreover have "map (\<lambda>p. ID (snd p)) ?ms = map ?name (map (\<lambda>p. Timestamp (snd p)) ?ms)"
  proof -
    have "ID (snd p) = ?name (Timestamp (snd p))" if "p \<in> set ?ms" for p
    proof -
      from that have m: "is_message (fst p)" and z: "(fst p, snd p) \<in> set (zip cs ?es)"
        by simp_all
      from server_run_returned [OF z] obtain st1 where "snd p = fst (server_step grow (fst p) st1)"
        by blast
      with message_ID [OF m, of grow st1] show ?thesis by simp
    qed
    then show ?thesis by simp
  qed
  ultimately show ?thesis
    by (simp only: message_ids_def)
qed

text \<open>
  The theorem for two receipts around a local event whose caller chose an ID of the same
  shape.
\<close>
theorem message_ids_distinct_witness:
  "in_range (map clock_call_of
      [CallProcessMessage 5 ''a'' 1, CallLogEvent ''msg-6'' ''b'' 2, CallProcessMessage 5 ''c'' 3])
      (clock (fst (NewServer []))) \<and>
   message_ids [CallProcessMessage 5 ''a'' 1, CallLogEvent ''msg-6'' ''b'' 2, CallProcessMessage 5 ''c'' 3]
     (fst (server_run (\<lambda>c. 2 * c)
       [CallProcessMessage 5 ''a'' 1, CallLogEvent ''msg-6'' ''b'' 2, CallProcessMessage 5 ''c'' 3]
       (NewServer []))) = [''msg-6'', ''msg-8''] \<and>
   distinct (message_ids [CallProcessMessage 5 ''a'' 1, CallLogEvent ''msg-6'' ''b'' 2, CallProcessMessage 5 ''c'' 3]
     (fst (server_run (\<lambda>c. 2 * c)
       [CallProcessMessage 5 ''a'' 1, CallLogEvent ''msg-6'' ''b'' 2, CallProcessMessage 5 ''c'' 3]
       (NewServer []))))"
proof -
  have h: "in_range (map clock_call_of
      [CallProcessMessage 5 ''a'' 1, CallLogEvent ''msg-6'' ''b'' 2, CallProcessMessage 5 ''c'' 3])
      (clock (fst (NewServer [])))"
    by (simp add: NewServer_def make_slice_def NewLamportClock_def Tick_def Update_def Let_def)
  have v: "message_ids [CallProcessMessage 5 ''a'' 1, CallLogEvent ''msg-6'' ''b'' 2, CallProcessMessage 5 ''c'' 3]
     (fst (server_run (\<lambda>c. 2 * c)
       [CallProcessMessage 5 ''a'' 1, CallLogEvent ''msg-6'' ''b'' 2, CallProcessMessage 5 ''c'' 3]
       (NewServer []))) = [''msg-6'', ''msg-8'']"
    by (simp add: message_ids_def NewServer_def make_slice_def logEvent_def processMessage_def
        append_slice_def NewLamportClock_def Tick_def Update_def Sprintf_d_def dec.simps
        digit_char_def Let_def)
  show ?thesis
    using h v message_ids_distinct [OF h, of "\<lambda>c. 2 * c"] by simp
qed

text \<open>
  Claim C9 as stated fails: the receipt of \<open>2^63 - 1\<close> wraps the clock to \<open>-2^63\<close>,
  and the second receipt of 5 returns the ID of the first one.
\<close>
theorem message_ids_counterexample:
  "message_ids
     [CallProcessMessage 5 ''a'' 1, CallProcessMessage 9223372036854775807 ''b'' 2,
      CallProcessMessage 5 ''c'' 3]
     (fst (server_run (\<lambda>c. 2 * c)
       [CallProcessMessage 5 ''a'' 1, CallProcessMessage 9223372036854775807 ''b'' 2,
        CallProcessMessage 5 ''c'' 3]
       (NewServer []))) = [''msg-6'', ''msg--9223372036854775808'', ''msg-6'']"
  by (simp add: message_ids_def NewServer_def make_slice_def logEvent_def processMessage_def
        append_slice_def NewLamportClock_def Tick_def Update_def Sprintf_d_def dec.simps
        digit_char_def Let_def)

text \<open>
  Claim C8 (amended). \<open>handleReceiveMessage\<close> answers a POST request whose timestamp
  is missing or empty, whose message is missing or empty, or whose timestamp
  \<open>ParseInt\<close> rejects, with status 400 and leaves the state, hence the clock and the
  event log, as it was. A request with another method is answered with status 405 and
  the state is left as it was. A POST request whose timestamp and message are both
  present and non-empty, with a timestamp that parses to \<open>ts\<close>, is answered with the
  event that \<open>processMessage ts\<close> returns, in the state that call leaves; the decimal
  numeral of every \<open>int64\<close> is such a timestamp.
\<close>
theorem handleReceiveMessage_validates:
  "(Method r = ''POST'' \<and>
      (Get (Query r) ''timestamp'' = [] \<or> Get (Query r) ''message'' = [] \<or>
       ParseInt (Get (Query r) ''timestamp'') = Inl err) \<longrightarrow>
      StatusCode (fst (handleReceiveMessage grow r now st)) = StatusBadRequest \<and>
      snd (handleReceiveMessage grow r now st) = st) \<and>
   (Method r \<noteq> ''POST'' \<longrightarrow>
      handleReceiveMessage grow r now st =
        (http_Error ''Method not allowed'' StatusMethodNotAllowed, st)) \<and>
   (Method r = ''POST'' \<and> Get (Query r) ''timestamp'' \<noteq> [] \<and> Get (Query r) ''message'' \<noteq> [] \<and>
      ParseInt (Get (Query r) ''timestamp'') = Inr ts \<longrightarrow>
      handleReceiveMessage grow r now st =
        (\<lparr>StatusCode = StatusOK,
          body = EventJSON (fst (processMessage grow ts (Get (Query r) ''message'') now st))\<rparr>,
         snd (processMessage grow ts (Get (Query r) ''message'') now st))) \<and>
   (Method r = ''POST'' \<and> Get (Query r) ''timestamp'' = Sprintf_d (sint ts) \<and>
      Get (Query r) ''message'' \<noteq> [] \<longrightarrow>
      handleReceiveMessage grow r now st =
        (\<lparr>StatusCode = StatusOK,
          body = EventJSON (fst (processMessage grow ts (Get (Query r) ''message'') now st))\<rparr>,
         snd (processMessage grow ts (Get (Query r) ''message'') now st)))"
proof -
  have ne: "Sprintf_d (sint ts) \<noteq> []"
    using dec_first [of "nat (sint ts)"] by (auto simp: Sprintf_d_def)
  have rejected: "StatusCode (fst (handleReceiveMessage grow r now st)) = StatusBadRequest \<and>
      snd (handleReceiveMessage grow r now st) = st"
    if "Method r = ''POST''"
      and "Get (Query r) ''timestamp'' = [] \<or> Get (Query r) ''message'' = [] \<or>
           ParseInt (Get (Query r) ''timestamp'') = Inl err"
    using that by (auto simp: handleReceiveMessage_def http_Error_def Let_def)
  have refused: "handleReceiveMessage grow r now st =
        (http_Error ''Method not allowed'' StatusMethodNotAllowed, st)"
    if "Method r \<noteq> ''POST''"
    using that by (simp add: handleReceiveMessage_def)
  have processed: "handleReceiveMessage grow r now st =
        (\<lparr>StatusCode = StatusOK,
          body = EventJSON (fst (processMessage grow ts (Get (Query r) ''message'') now st))\<rparr>,
         snd (processMessage grow ts (Get (Query r) ''message'') now st))"
    if "Method r = ''POST''" and "Get (Query r) ''timestamp'' \<noteq> []"
      and "Get (Query r) ''message'' \<noteq> []" and "ParseInt (Get (Query r) ''timestamp'') = Inr ts"
    using that by (simp add: handleReceiveMessage_def Let_def split_beta)
  have numeral: "handleReceiveMessage grow r now st =
        (\<lparr>StatusCode = StatusOK,
          body = EventJSON (fst (processMessage grow ts (Get (Query r) ''message'') now st))\<rparr>,
         snd (processMessage grow ts (Get (Query r) ''message'') now st))"
    if "Method r = ''POST''" and "Get (Query r) ''timestamp'' = Sprintf_d (sint ts)"
      and "Get (Query r) ''message'' \<noteq> []"
    using that ne by (intro processed) (simp_all add: ParseInt_Sprintf_d)
  from rejected refused processed numeral show ?thesis by blast
qed

text \<open>
  The theorem for the requests of the handler's test, a timestamp that is not a numeral,
  a missing message, the wrong method and a well-formed request, and for a message that
  is present but empty.
\<close>
theorem handleReceiveMessage_validates_witness:
  "fst (handleReceiveMessage (\<lambda>c. 2 * c)
      \<lparr>Method = ''POST'', Query = [''timestamp'' \<mapsto> [''invalid''], ''message'' \<mapsto> [''test'']]\<rparr>
      3 (NewServer [])) =
     \<lparr>StatusCode = 400, body = Text (''Invalid timestamp'' @ [CHR 0x0A])\<rparr> \<and>
   snd (handleReceiveMessage (\<lambda>c. 2 * c)
      \<lparr>Method = ''POST'', Query = [''timestamp'' \<mapsto> [''invalid''], ''message'' \<mapsto> [''test'']]\<rparr>
      3 (NewServer [])) = NewServer [] \<and>
   StatusCode (fst (handleReceiveMessage (\<lambda>c. 2 * c)
      \<lparr>Method = ''POST'', Query = [''timestamp'' \<mapsto> [''5'']]\<rparr> 3 (NewServer []))) = 400 \<and>
   StatusCode (fst (handleReceiveMessage (\<lambda>c. 2 * c)
      \<lparr>Method = ''POST'', Query = [''timestamp'' \<mapsto> [''5''], ''message'' \<mapsto> [[]]]\<rparr>
      3 (NewServer []))) = 400 \<and>
   StatusCode (fst (handleReceiveMessage (\<lambda>c. 2 * c)
      \<lparr>Method = ''GET'', Query = [''timestamp'' \<mapsto> [''5''], ''message'' \<mapsto> [''test'']]\<rparr>
      3 (NewServer []))) = 405 \<and>
   fst (handleReceiveMessage (\<lambda>c. 2 * c)
      \<lparr>Method = ''POST'', Query = [''timestamp'' \<mapsto> [''10''], ''message'' \<mapsto> [''external_event'']]\<rparr>
      3 (NewServer [])) =
     \<lparr>StatusCode = 200,
      body = EventJSON \<lparr>ID = ''msg-11'', Message = ''Processed: external_event'',
                         Timestamp = 11, WallTime = 3\<rparr>\<rparr>"
proof -
  let ?g = "\<lambda>c :: nat. 2 * c"
  let ?bad = "\<lparr>Method = ''POST'', Query = [''timestamp'' \<mapsto> [''invalid''], ''message'' \<mapsto> [''test'']]\<rparr>"
  let ?missing = "\<lparr>Method = ''POST'', Query = [''timestamp'' \<mapsto> [''5'']]\<rparr>"
  let ?empty = "\<lparr>Method = ''POST'', Query = [''timestamp'' \<mapsto> [''5''], ''message'' \<mapsto> [[]]]\<rparr>"
  let ?get = "\<lparr>Method = ''GET'', Query = [''timestamp'' \<mapsto> [''5''], ''message'' \<mapsto> [''test'']]\<rparr>"
  let ?ok = "\<lparr>Method = ''POST'', Query = [''timestamp'' \<mapsto> [''10''], ''message'' \<mapsto> [''external_event'']]\<rparr>"
  have b: "Method ?bad = ''POST'' \<and>
      (Get (Query ?bad) ''timestamp'' = [] \<or> Get (Query ?bad) ''message'' = [] \<or>
       ParseInt (Get (Query ?bad) ''timestamp'') = Inl ErrSyntax)"
    by (simp add: Get_def ParseInt_def ParseUint_def)
  have m: "Method ?missing = ''POST'' \<and>
      (Get (Query ?missing) ''timestamp'' = [] \<or> Get (Query ?missing) ''message'' = [] \<or>
       ParseInt (Get (Query ?missing) ''timestamp'') = Inl ErrSyntax)"
    by (simp add: Get_def)
  have p: "Method ?empty = ''POST'' \<and>
      (Get (Query ?empty) ''timestamp'' = [] \<or> Get (Query ?empty) ''message'' = [] \<or>
       ParseInt (Get (Query ?empty) ''timestamp'') = Inl ErrSyntax)"
    by (simp add: Get_def)
  have g: "Method ?get \<noteq> ''POST''"
    by simp
  have k: "Method ?ok = ''POST'' \<and> Get (Query ?ok) ''timestamp'' \<noteq> [] \<and>
      Get (Query ?ok) ''message'' \<noteq> [] \<and> ParseInt (Get (Query ?ok) ''timestamp'') = Inr 10"
    by (simp add: Get_def ParseInt_def ParseUint_def)
  have e: "fst (processMessage ?g 10 (Get (Query ?ok) ''message'') 3 (NewServer [])) =
      \<lparr>ID = ''msg-11'', Message = ''Processed: external_event'', Timestamp = 11, WallTime = 3\<rparr>"
    by (simp add: Get_def processMessage_def NewServer_def make_slice_def append_slice_def
        NewLamportClock_def Update_def Sprintf_d_def dec.simps digit_char_def Let_def)
  have bad_body: "fst (handleReceiveMessage ?g ?bad 3 (NewServer [])) =
     \<lparr>StatusCode = 400, body = Text (''Invalid timestamp'' @ [CHR 0x0A])\<rparr>"
    by (simp add: handleReceiveMessage_def Get_def ParseInt_def ParseUint_def http_Error_def
        StatusBadRequest_def)
  from b m p g k e bad_body show ?thesis
    using handleReceiveMessage_validates [of ?bad ErrSyntax ?g 3 "NewServer []"]
      handleReceiveMessage_validates [of ?empty ErrSyntax ?g 3 "NewServer []"]
      handleReceiveMessage_validates [of ?missing ErrSyntax ?g 3 "NewServer []"]
      handleReceiveMessage_validates [of ?get ErrSyntax ?g 3 "NewServer []"]
      handleReceiveMessage_validates [of ?ok ErrSyntax ?g 3 "NewServer []" 10]
    by (simp add: StatusBadRequest_def StatusMethodNotAllowed_def StatusOK_def http_Error_def)
qed

text \<open>
  Claim C8 as stated fails for a request that is not a POST: a GET request without a
  timestamp is answered with status 405, not 400.
\<close>
theorem handleReceiveMessage_counterexample:
  "Get (Query \<lparr>Method = ''GET'', Query = Map.empty\<rparr>) ''timestamp'' = [] \<and>
   fst (handleReceiveMessage (\<lambda>c. 2 * c) \<lparr>Method = ''GET'', Query = Map.empty\<rparr> 3 (NewServer [])) =
     \<lparr>StatusCode = 405, body = Text (''Method not allowed'' @ [CHR 0x0A])\<rparr>"
  by (simp add: handleReceiveMessage_def Get_def http_Error_def StatusMethodNotAllowed_def)

end
